theory Spec2Isabelle
  imports Complex_Main "HOL-Library.Word" "HOL-Library.Multiset"
begin

unbundle bit_operations_syntax

section \<open>Character classes of cctype in the "C" locale\<close>

text \<open>
  \<open>password[i]\<close> is a \<open>char\<close>; the program documents that it assumes codes below 128.
  The four library predicates are the ones of the "C" locale, given by code ranges
  (\<open>ispunct\<close>: the printing characters 33 to 126 that are neither digits nor letters).
  For a code of 128 or more every predicate is false here, as in that locale; the enum's
  comment counts such characters among the "other" ones.
\<close>

definition isdigit :: "char \<Rightarrow> bool" where
  "isdigit c \<longleftrightarrow> 48 \<le> (of_char c :: nat) \<and> (of_char c :: nat) \<le> 57"

definition islower :: "char \<Rightarrow> bool" where
  "islower c \<longleftrightarrow> 97 \<le> (of_char c :: nat) \<and> (of_char c :: nat) \<le> 122"

definition isupper :: "char \<Rightarrow> bool" where
  "isupper c \<longleftrightarrow> 65 \<le> (of_char c :: nat) \<and> (of_char c :: nat) \<le> 90"

definition ispunct :: "char \<Rightarrow> bool" where
  "ispunct c \<longleftrightarrow>
     (33 \<le> (of_char c :: nat) \<and> (of_char c :: nat) \<le> 47) \<or>
     (58 \<le> (of_char c :: nat) \<and> (of_char c :: nat) \<le> 64) \<or>
     (91 \<le> (of_char c :: nat) \<and> (of_char c :: nat) \<le> 96) \<or>
     (123 \<le> (of_char c :: nat) \<and> (of_char c :: nat) \<le> 126)"

section \<open>The weights of the anonymous enum\<close>

definition NUMBERS :: int where "NUMBERS = 10"
definition LOWERCASE :: int where "LOWERCASE = 26"
definition UPPERCASE :: int where "UPPERCASE = 26"
definition SYMBOLS :: int where "SYMBOLS = 32"
definition SPACE :: int where "SPACE = 1"
definition TAB :: int where "TAB = 1"
definition OTHER :: int where "OTHER = 1"

section \<open>The scan of computeNumCombinations\<close>

text \<open>
  \<open>charTypes\<close> is the array \<open>bool charTypes[7]\<close>, a list of seven flags indexed
  0-NUMBERS, 1-LOWERCASE, 2-UPPERCASE, 3-SYMBOLS, 4-SPACE, 5-TAB, 6-OTHER.
  \<open>scan_char\<close> is the body of the \<open>for\<close> loop, \<open>scan\<close> the loop over
  \<open>password[0]\<close>, ..., \<open>password[length - 1]\<close> from the all-false array. (The
  index of the loop is an \<open>int\<close>: the fold is the loop for the passwords of fewer
  than \<open>2 ^ 31\<close> characters.)
\<close>

definition scan_char :: "bool list \<Rightarrow> char \<Rightarrow> bool list" where
  "scan_char charTypes c =
     (if isdigit c then charTypes[0 := True]
      else if islower c then charTypes[1 := True]
      else if isupper c then charTypes[2 := True]
      else if ispunct c then charTypes[3 := True]
      else if c = CHR '' '' then charTypes[4 := True]
      else if c = CHR 0x09 then charTypes[5 := True]
      else charTypes[6 := True])"

definition scan :: "string \<Rightarrow> bool list" where
  "scan password =
     foldl scan_char [False, False, False, False, False, False, False] password"

text \<open>
  The weighted sum of lines 168-171, computed in \<open>int\<close> (a \<open>bool\<close> promotes to 0 or 1).
\<close>

definition alphabetSize :: "bool list \<Rightarrow> int" where
  "alphabetSize charTypes =
     (of_bool (charTypes ! 0) * NUMBERS) + (of_bool (charTypes ! 1) * LOWERCASE)
   + (of_bool (charTypes ! 2) * UPPERCASE) + (of_bool (charTypes ! 3) * SYMBOLS)
   + (of_bool (charTypes ! 4) * SPACE) + (of_bool (charTypes ! 5) * TAB)
   + (of_bool (charTypes ! 6) * OTHER)"

text \<open>
  The categories as the specification words them: an ordered list of tests, the first
  test that a character passes decides its category (the index of that test).
\<close>

definition category_tests :: "(char \<Rightarrow> bool) list" where
  "category_tests =
     [isdigit, islower, isupper, ispunct, \<lambda>c. c = CHR '' '', \<lambda>c. c = CHR 0x09, \<lambda>c. True]"

definition category :: "char \<Rightarrow> nat" where
  "category c = length (takeWhile (\<lambda>p. \<not> p c) category_tests)"

section \<open>long double\<close>

text \<open>
  A \<open>long double\<close> is modelled by the value it stands for: a finite real, one of the
  two infinities, or a NaN. A finite result of an operation is the mathematical result
  (the rounding to 64 significant bits is not modelled, nor is the sign of zero); a
  result whose magnitude reaches \<open>2 ^ LDBL_MAX_EXP\<close> is the infinity of its sign.
  \<open>LDBL_MAX_EXP\<close> is 16384 in the x87 extended format and in binary128, the two
  formats with a 15-bit exponent.
\<close>

datatype ldouble = Fin real | PInf | NInf | NaN

definition LDBL_MAX_EXP :: nat where
  "LDBL_MAX_EXP = 16384"

definition LDBL_OVERFLOW :: real where
  "LDBL_OVERFLOW = 2 ^ LDBL_MAX_EXP"

definition to_ldouble :: "real \<Rightarrow> ldouble" where
  "to_ldouble x =
     (if LDBL_OVERFLOW \<le> x then PInf
      else if x \<le> - LDBL_OVERFLOW then NInf
      else Fin x)"

text \<open>
  \<open>pow(x, y)\<close> for the exponents this program passes, the values of
  \<open>password.length()\<close>: \<open>pow(x, 0)\<close> is 1 for every \<open>x\<close>, a NaN included, and so
  is \<open>pow(0, 0)\<close>; an infinite base stays infinite, negative for an odd exponent.
\<close>

fun pow :: "ldouble \<Rightarrow> nat \<Rightarrow> ldouble" where
  "pow x 0 = Fin 1"
| "pow (Fin x) (Suc n) = to_ldouble (x ^ Suc n)"
| "pow PInf (Suc n) = PInf"
| "pow NInf (Suc n) = (if even (Suc n) then PInf else NInf)"
| "pow NaN (Suc n) = NaN"

text \<open>
  \<open>log\<close>: minus infinity at zero (a pole), a NaN for a negative argument, and
  \<open>log(1)\<close> is exactly 0.
\<close>

fun log_ld :: "ldouble \<Rightarrow> ldouble" where
  "log_ld (Fin x) = (if x < 0 then NaN else if x = 0 then NInf else Fin (ln x))"
| "log_ld PInf = PInf"
| "log_ld NInf = NaN"
| "log_ld NaN = NaN"

text \<open>The quotient \<open>a / b\<close> of IEEE 754, a zero divisor taken as positive.\<close>

fun div_ld :: "ldouble \<Rightarrow> ldouble \<Rightarrow> ldouble" where
  "div_ld NaN b = NaN"
| "div_ld a NaN = NaN"
| "div_ld (Fin a) (Fin b) =
     (if b = 0 then (if a = 0 then NaN else if 0 < a then PInf else NInf)
      else to_ldouble (a / b))"
| "div_ld (Fin a) PInf = Fin 0"
| "div_ld (Fin a) NInf = Fin 0"
| "div_ld PInf (Fin b) = (if 0 \<le> b then PInf else NInf)"
| "div_ld NInf (Fin b) = (if 0 \<le> b then NInf else PInf)"
| "div_ld PInf PInf = NaN"
| "div_ld PInf NInf = NaN"
| "div_ld NInf PInf = NaN"
| "div_ld NInf NInf = NaN"

fun floor_ld :: "ldouble \<Rightarrow> ldouble" where
  "floor_ld (Fin x) = Fin (of_int \<lfloor>x\<rfloor>)"
| "floor_ld PInf = PInf"
| "floor_ld NInf = NInf"
| "floor_ld NaN = NaN"

text \<open>
  The conversion of a \<open>long double\<close> to \<open>int\<close> in the assignment to \<open>numBits\<close>: the
  value is truncated towards zero, and the truncated value is the result when an
  \<open>int\<close> of 32 bits can hold it. For every other operand (an infinity, a NaN, a
  value out of range) the language defines no result; what the machine then stores is
  the parameter \<open>indefinite\<close>.
\<close>

definition trunc_toward_zero :: "real \<Rightarrow> int" where
  "trunc_toward_zero x = (if 0 \<le> x then \<lfloor>x\<rfloor> else \<lceil>x\<rceil>)"

fun to_int :: "(ldouble \<Rightarrow> int) \<Rightarrow> ldouble \<Rightarrow> int" where
  "to_int indefinite (Fin x) =
     (if - (2 ^ 31) \<le> trunc_toward_zero x \<and> trunc_toward_zero x < 2 ^ 31 then trunc_toward_zero x
      else indefinite (Fin x))"
| "to_int indefinite PInf = indefinite PInf"
| "to_int indefinite NInf = indefinite NInf"
| "to_int indefinite NaN = indefinite NaN"

text \<open>
  On x86 the conversion instructions store the "integer indefinite" value
  \<open>- 2 ^ 31\<close> for every operand that has no \<open>int\<close> value.
\<close>

definition x86_indefinite :: "ldouble \<Rightarrow> int" where
  "x86_indefinite v = - (2 ^ 31)"

text \<open>
  A conversion that saturates (the AArch64 instructions, and the library conversion of
  binary128 there) stores the nearest \<open>int\<close>, and 0 for a NaN.
\<close>

fun saturating :: "ldouble \<Rightarrow> int" where
  "saturating (Fin x) = (if 0 \<le> x then 2 ^ 31 - 1 else - (2 ^ 31))"
| "saturating PInf = 2 ^ 31 - 1"
| "saturating NInf = - (2 ^ 31)"
| "saturating NaN = 0"

section \<open>The class PasswordAnalyzer\<close>

record PasswordAnalyzer =
  password :: string
  numCombinations :: ldouble
  numBits :: int

text \<open>The constructor: \<open>password("")\<close>, \<open>numCombinations(0)\<close>, \<open>numBits(0)\<close>.\<close>

definition PasswordAnalyzer_new :: PasswordAnalyzer where
  "PasswordAnalyzer_new = \<lparr>password = [], numCombinations = Fin 0, numBits = 0\<rparr>"

text \<open>
  \<open>computeNumCombinations\<close>: the scan, the weighted sum stored in
  \<open>numCombinations\<close> (an \<open>int\<close> below 98, held exactly), then
  \<open>numCombinations = pow(numCombinations, password.length())\<close>.
\<close>

definition computeNumCombinations :: "PasswordAnalyzer \<Rightarrow> PasswordAnalyzer" where
  "computeNumCombinations pa =
     (let charTypes = scan (password pa);
          pa1 = pa\<lparr>numCombinations := Fin (of_int (alphabetSize charTypes))\<rparr>
      in pa1\<lparr>numCombinations := pow (numCombinations pa1) (length (password pa1))\<rparr>)"

text \<open>
  \<open>computeNumBits\<close>: \<open>numBits = floor(log(numCombinations) / log(2))\<close>. The
  divisor is the \<open>double\<close> logarithm of the \<open>int\<close> 2, widened for the division;
  here it is the real \<open>ln 2\<close>, as no rounding is modelled.
\<close>

definition computeNumBits :: "(ldouble \<Rightarrow> int) \<Rightarrow> PasswordAnalyzer \<Rightarrow> PasswordAnalyzer" where
  "computeNumBits indefinite pa =
     pa\<lparr>numBits :=
          to_int indefinite (floor_ld (div_ld (log_ld (numCombinations pa)) (log_ld (Fin 2))))\<rparr>"

text \<open>
  The two computing steps of \<open>run\<close>, on an object whose \<open>password\<close> has been read.
\<close>

definition analyze :: "(ldouble \<Rightarrow> int) \<Rightarrow> string \<Rightarrow> PasswordAnalyzer" where
  "analyze indefinite pw =
     computeNumBits indefinite (computeNumCombinations (PasswordAnalyzer_new\<lparr>password := pw\<rparr>))"

section \<open>The terminal and the streams\<close>

text \<open>
  Of \<open>struct termios\<close> the program touches \<open>c_lflag\<close> only (a \<open>tcflag_t\<close>, 32 bits
  without sign); \<open>ECHO\<close> is the bit \<open>0000010\<close> (octal) of termios.h. The terminal
  behind \<open>STDIN_FILENO\<close> is \<open>Some\<close> of its settings, or \<open>None\<close> when the standard
  input is no terminal: then \<open>tcgetattr\<close> fails and leaves the local \<open>tty\<close> as
  it was, and \<open>tcsetattr\<close> fails and changes nothing (neither result is tested).
\<close>

record termios =
  c_lflag :: "32 word"

definition ECHO :: "32 word" where
  "ECHO = 8"

definition tcgetattr :: "termios option \<Rightarrow> termios \<Rightarrow> termios" where
  "tcgetattr term tty = (case term of None \<Rightarrow> tty | Some t \<Rightarrow> t)"

definition tcsetattr :: "termios option \<Rightarrow> termios \<Rightarrow> termios option" where
  "tcsetattr term tty = (case term of None \<Rightarrow> None | Some t \<Rightarrow> Some tty)"

text \<open>
  What the standard input delivers is a list of events: a character, or an end-of-file
  indication (a terminal can deliver characters after one; a file cannot). Past the end
  of the list every read meets the end of the file. The state of \<open>cin\<close> is what is
  still to come and the two state bits the program can meet (\<open>badbit\<close>, set by a failing
  stream buffer, is left out).
\<close>

datatype event = Ch char | Eof

record istream =
  pending :: "event list"
  eofbit :: bool
  failbit :: bool

definition good :: "istream \<Rightarrow> bool" where
  "good is \<longleftrightarrow> \<not> eofbit is \<and> \<not> failbit is"

definition fail :: "istream \<Rightarrow> bool" where
  "fail is \<longleftrightarrow> failbit is"

definition clear :: "istream \<Rightarrow> istream" where
  "clear is = is\<lparr>eofbit := False, failbit := False\<rparr>"

text \<open>
  The extraction of \<open>getline\<close>: characters up to the delimiter, which is taken from
  the input and not stored, or up to the end of the file. The result is the line, the
  remaining input, and whether the end of the file was met.
\<close>

fun extract_line :: "char \<Rightarrow> event list \<Rightarrow> string \<times> event list \<times> bool" where
  "extract_line delim [] = ([], [], True)"
| "extract_line delim (Eof # rest) = ([], rest, True)"
| "extract_line delim (Ch c # rest) =
     (if c = delim then ([], rest, False)
      else (case extract_line delim rest of (line, rest', eof) \<Rightarrow> (c # line, rest', eof)))"

text \<open>
  \<open>getline(is, str, delim)\<close>: on a stream that is not good the sentry sets \<open>failbit\<close>
  and \<open>str\<close> is left alone; otherwise \<open>str\<close> is replaced by the extracted line,
  \<open>eofbit\<close> is set when the end of the file was met, and \<open>failbit\<close> when nothing at
  all was extracted (no character and no delimiter). The limit \<open>str.max_size()\<close> is
  not modelled.
\<close>

definition getline :: "istream \<Rightarrow> string \<Rightarrow> char \<Rightarrow> istream \<times> string" where
  "getline is str delim =
     (if \<not> good is then (is\<lparr>failbit := True\<rparr>, str)
      else (case extract_line delim (pending is) of
              (line, rest, eof) \<Rightarrow>
                (is\<lparr>pending := rest, eofbit := eof, failbit := (line = [] \<and> eof)\<rparr>, line)))"

text \<open>
  \<open>ignore(n, delim)\<close> extracts and drops characters until \<open>n\<close> of them are gone, or
  the end of the file is met (\<open>eofbit\<close>), or the delimiter has been extracted.
\<close>

fun discard :: "nat \<Rightarrow> char \<Rightarrow> event list \<Rightarrow> event list \<times> bool" where
  "discard 0 delim evs = (evs, False)"
| "discard (Suc n) delim [] = ([], True)"
| "discard (Suc n) delim (Eof # rest) = (rest, True)"
| "discard (Suc n) delim (Ch c # rest) =
     (if c = delim then (rest, False) else discard n delim rest)"

definition ignore :: "istream \<Rightarrow> nat \<Rightarrow> char \<Rightarrow> istream" where
  "ignore is n delim =
     (if \<not> good is then is\<lparr>failbit := True\<rparr>
      else (case discard n delim (pending is) of
              (rest, eof) \<Rightarrow> is\<lparr>pending := rest, eofbit := eof\<rparr>))"

text \<open>
  What is inserted into \<open>cout\<close>, item by item; the formatting of the numbers
  (\<open>fixed\<close>, precision 0) is not modelled.
\<close>

datatype item = Str string | LongDouble ldouble | Integer int | Endl

record world =
  cin :: istream
  cout :: "item list"
  terminal :: "termios option"

section \<open>promptPassword\<close>

definition prompt :: string where
  "prompt = ''Please enter the password: ''"

definition errMsg :: string where
  "errMsg = ''Invalid entry! Please try again!'' @ [CHR 0x0A]"

text \<open>
  Lines 101-112: \<open>display_password\<close> is the constant \<open>true\<close>; the terminal settings
  are read into \<open>tty\<close> (whose content before is \<open>tty0\<close>), changed and written back.
  The result is the new world and the local \<open>tty\<close>.
\<close>

definition set_echo :: "termios \<Rightarrow> world \<Rightarrow> world \<times> termios" where
  "set_echo tty0 w =
     (let display_password = True;
          tty = tcgetattr (terminal w) tty0;
          tty = (if \<not> display_password then tty\<lparr>c_lflag := c_lflag tty AND NOT ECHO\<rparr>
                 else tty\<lparr>c_lflag := c_lflag tty OR ECHO\<rparr>)
      in (w\<lparr>terminal := tcsetattr (terminal w) tty\<rparr>, tty))"

text \<open>Lines 118-119: the prompt and the first \<open>getline(cin, password, '\n')\<close>.\<close>

definition first_read :: "world \<times> PasswordAnalyzer \<Rightarrow> world \<times> PasswordAnalyzer" where
  "first_read = (\<lambda>(w, pa).
     (let w = w\<lparr>cout := cout w @ [Str prompt]\<rparr>;
          (is, str) = getline (cin w) (password pa) (CHR 0x0A)
      in (w\<lparr>cin := is\<rparr>, pa\<lparr>password := str\<rparr>)))"

text \<open>Lines 123-127: the body of the \<open>while (cin.fail())\<close> loop.\<close>

definition retry_body :: "world \<times> PasswordAnalyzer \<Rightarrow> world \<times> PasswordAnalyzer" where
  "retry_body = (\<lambda>(w, pa).
     (let w = w\<lparr>cin := clear (cin w)\<rparr>;
          w = w\<lparr>cin := ignore (cin w) 80 (CHR 0x0A)\<rparr>;
          w = w\<lparr>cout := cout w @ [Str errMsg]\<rparr>;
          w = w\<lparr>cout := cout w @ [Str prompt]\<rparr>;
          (is, str) = getline (cin w) (password pa) (CHR 0x0A)
      in (w\<lparr>cin := is\<rparr>, pa\<lparr>password := str\<rparr>)))"

text \<open>The loop itself; it has no bound, so its result is \<open>None\<close> when it never ends.\<close>

partial_function (option) retry_loop ::
  "world \<times> PasswordAnalyzer \<Rightarrow> (world \<times> PasswordAnalyzer) option" where
  "retry_loop s = (if fail (cin (fst s)) then retry_loop (retry_body s) else Some s)"

text \<open>Lines 130-132: \<open>tty.c_lflag |= ECHO\<close> and the second \<open>tcsetattr\<close>.\<close>

definition reset_echo :: "termios \<Rightarrow> world \<Rightarrow> world" where
  "reset_echo tty w =
     (let tty = tty\<lparr>c_lflag := c_lflag tty OR ECHO\<rparr>
      in w\<lparr>terminal := tcsetattr (terminal w) tty\<rparr>)"

definition promptPassword ::
  "termios \<Rightarrow> world \<times> PasswordAnalyzer \<Rightarrow> (world \<times> PasswordAnalyzer) option" where
  "promptPassword tty0 = (\<lambda>(w, pa).
     (let (w, tty) = set_echo tty0 w
      in (case retry_loop (first_read (w, pa)) of
            None \<Rightarrow> None
          | Some (w, pa) \<Rightarrow> Some (reset_echo tty w, pa))))"

section \<open>The output and run\<close>

definition insertion :: "PasswordAnalyzer \<Rightarrow> item list" where
  "insertion pa =
     [Str ''There are '', LongDouble (numCombinations pa), Str '' combinations'', Endl,
      Str ''That is equivalent to a key of '', Integer (numBits pa), Str '' bits'', Endl]"

definition run ::
  "termios \<Rightarrow> (ldouble \<Rightarrow> int) \<Rightarrow> world \<times> PasswordAnalyzer \<Rightarrow>
     (world \<times> PasswordAnalyzer) option" where
  "run tty0 indefinite s =
     (case promptPassword tty0 s of
        None \<Rightarrow> None
      | Some (w, pa) \<Rightarrow>
          (let pa = computeNumCombinations pa;
               pa = computeNumBits indefinite pa
           in Some (w\<lparr>cout := cout w @ insertion pa\<rparr>, pa)))"

section \<open>Three worlds to run the program in\<close>



definition typed_aA1 :: world where
  "typed_aA1 =
     \<lparr>cin = \<lparr>pending = map Ch ''aA1!'' @ [Ch (CHR 0x0A)], eofbit = False, failbit = False\<rparr>,
      cout = [], terminal = None\<rparr>"

section \<open>Lemmas on the scan\<close>

lemma category_less: "category c < 7"
  by (simp add: category_def category_tests_def)

lemma scan_char_category: "scan_char ct c = ct[category c := True]"
  by (simp add: scan_char_def category_def category_tests_def eval_nat_numeral)

lemma length_scan_char: "length (scan_char ct c) = length ct"
  by (simp add: scan_char_category)

lemma foldl_scan_char_length: "length (foldl scan_char ct pw) = length ct"
  by (induction pw arbitrary: ct) (simp_all add: length_scan_char)

lemma scan_char_nth:
  "k < length ct \<Longrightarrow> scan_char ct a ! k \<longleftrightarrow> ct ! k \<or> category a = k"
  by (cases "category a = k") (simp_all add: scan_char_category)

lemma foldl_scan_char_nth:
  "k < length ct \<Longrightarrow> foldl scan_char ct pw ! k \<longleftrightarrow> ct ! k \<or> (\<exists>c\<in>set pw. category c = k)"
proof (induction pw arbitrary: ct)
  case Nil
  then show ?case by simp
next
  case (Cons a pw)
  have "foldl scan_char (scan_char ct a) pw ! k \<longleftrightarrow>
        scan_char ct a ! k \<or> (\<exists>c\<in>set pw. category c = k)"
    using Cons.prems by (intro Cons.IH) (simp add: length_scan_char)
  with Cons.prems show ?case by (auto simp: scan_char_nth)
qed

lemma length_scan: "length (scan pw) = 7"
  by (simp add: scan_def foldl_scan_char_length)

lemma scan_nth: "k < 7 \<Longrightarrow> scan pw ! k \<longleftrightarrow> (\<exists>c\<in>set pw. category c = k)"
proof -
  assume k: "k < 7"
  have "[False, False, False, False, False, False, False] ! k = False"
    using k by (auto simp: nth_Cons')
  then show ?thesis using k
    by (simp add: scan_def foldl_scan_char_nth)
qed

lemma first_match_index:
  "length (takeWhile (\<lambda>p. \<not> p c) ps) = k \<longleftrightarrow>
     k \<le> length ps \<and> (\<forall>j<k. \<not> (ps ! j) c) \<and> (k < length ps \<longrightarrow> (ps ! k) c)"
proof (induction ps arbitrary: k)
  case Nil
  then show ?case by auto
next
  case (Cons p ps)
  show ?case
  proof (cases "p c")
    case True
    then show ?thesis by (cases k) auto
  next
    case False
    show ?thesis
    proof (cases k)
      case 0
      with False show ?thesis by simp
    next
      case (Suc m)
      have "(\<forall>j<Suc m. \<not> ((p # ps) ! j) c) \<longleftrightarrow> (\<forall>j<m. \<not> (ps ! j) c)"
        using False by (auto simp: less_Suc_eq_0_disj)
      with False Suc Cons.IH [of m] show ?thesis by simp
    qed
  qed
qed

lemma category_first_match:
  "category c = k \<longleftrightarrow>
     k < 7 \<and> (category_tests ! k) c \<and> (\<forall>j<k. \<not> (category_tests ! j) c)"
proof -
  have len: "length category_tests = 7" by (simp add: category_tests_def)
  have last: "(category_tests ! 6) c" by (simp add: category_tests_def)
  have "category c = k \<longleftrightarrow>
     k \<le> 7 \<and> (\<forall>j<k. \<not> (category_tests ! j) c) \<and> (k < 7 \<longrightarrow> (category_tests ! k) c)"
    unfolding category_def first_match_index len ..
  moreover have "\<not> (\<forall>j<7. \<not> (category_tests ! j) c)"
    using last by (intro notI) (simp add: less_Suc_eq eval_nat_numeral)
  ultimately show ?thesis by (cases "k = 7") auto
qed

lemma scan_list: "\<exists>a b c d e f g. scan pw = [a, b, c, d, e, f, g]"
  using length_scan [of pw] by (auto simp: eval_nat_numeral length_Suc_conv)

lemma alphabetSize_sum:
  "alphabetSize (scan pw) =
     sum_list (map2 (\<lambda>flag weight. if flag then weight else 0) (scan pw)
       [10, 26, 26, 32, 1, 1, 1])"
proof -
  obtain a b c d e f g where s: "scan pw = [a, b, c, d, e, f, g]"
    using scan_list by blast
  show ?thesis unfolding s
    by (simp add: alphabetSize_def NUMBERS_def LOWERCASE_def UPPERCASE_def SYMBOLS_def
        SPACE_def TAB_def OTHER_def)
qed

lemma alphabetSize_nonneg: "0 \<le> alphabetSize ct"
  by (simp add: alphabetSize_def NUMBERS_def LOWERCASE_def UPPERCASE_def SYMBOLS_def
        SPACE_def TAB_def OTHER_def)

lemma alphabetSize_le: "alphabetSize ct \<le> 97"
  by (simp add: alphabetSize_def NUMBERS_def LOWERCASE_def UPPERCASE_def SYMBOLS_def
        SPACE_def TAB_def OTHER_def of_bool_def)

lemma alphabetSize_flag: "k < 7 \<Longrightarrow> ct ! k \<Longrightarrow> 1 \<le> alphabetSize ct"
proof -
  assume "k < 7" "ct ! k"
  then have "ct ! 0 \<or> ct ! 1 \<or> ct ! 2 \<or> ct ! 3 \<or> ct ! 4 \<or> ct ! 5 \<or> ct ! 6"
    by (auto simp: less_Suc_eq eval_nat_numeral)
  then show ?thesis
  by (auto simp add: alphabetSize_def NUMBERS_def LOWERCASE_def UPPERCASE_def SYMBOLS_def
        SPACE_def TAB_def OTHER_def of_bool_def)
qed

lemma alphabetSize_scan_pos: "pw \<noteq> [] \<Longrightarrow> 1 \<le> alphabetSize (scan pw)"
proof -
  assume "pw \<noteq> []"
  then obtain c where c: "c \<in> set pw" by (cases pw) auto
  then have "scan pw ! category c" using category_less scan_nth by blast
  then show ?thesis using alphabetSize_flag category_less by blast
qed

lemma scan_Nil: "scan [] = [False, False, False, False, False, False, False]"
  by (simp add: scan_def)

lemma alphabetSize_scan_Nil: "alphabetSize (scan []) = 0"
  by (simp add: scan_Nil alphabetSize_def)

lemma scan_cong_set: "set pw = set pw' \<Longrightarrow> scan pw = scan pw'"
  by (rule nth_equalityI) (simp_all add: length_scan scan_nth)

section \<open>Lemmas on the arithmetic\<close>

lemma LDBL_OVERFLOW_pos: "0 < LDBL_OVERFLOW"
  unfolding LDBL_OVERFLOW_def by (rule zero_less_power) simp

lemma below_LDBL_OVERFLOW: "x < 2 ^ k \<Longrightarrow> k \<le> LDBL_MAX_EXP \<Longrightarrow> x < LDBL_OVERFLOW"
proof -
  assume x: "x < 2 ^ k" and k: "k \<le> LDBL_MAX_EXP"
  have "(2::real) ^ k \<le> 2 ^ LDBL_MAX_EXP" using k by (intro power_increasing) simp_all
  with x show ?thesis unfolding LDBL_OVERFLOW_def by (rule less_le_trans)
qed

lemma above_LDBL_OVERFLOW:
  fixes x :: real
  shows "2 ^ a \<le> x \<Longrightarrow> LDBL_MAX_EXP \<le> a * n \<Longrightarrow> LDBL_OVERFLOW \<le> x ^ n"
proof -
  assume x: "2 ^ a \<le> x" and n: "LDBL_MAX_EXP \<le> a * n"
  have "(2::real) ^ LDBL_MAX_EXP \<le> 2 ^ (a * n)" using n by (intro power_increasing) simp_all
  also have "\<dots> = (2 ^ a) ^ n" by (rule power_mult)
  also have "\<dots> \<le> x ^ n" using x by (intro power_mono) simp_all
  finally show ?thesis unfolding LDBL_OVERFLOW_def .
qed

lemma to_ldouble_Fin: "0 \<le> x \<Longrightarrow> x < LDBL_OVERFLOW \<Longrightarrow> to_ldouble x = Fin x"
  using LDBL_OVERFLOW_pos by (simp add: to_ldouble_def)

lemma to_ldouble_PInf: "LDBL_OVERFLOW \<le> x \<Longrightarrow> to_ldouble x = PInf"
  by (simp add: to_ldouble_def)

lemma pow_Fin: "pow (Fin x) n = (if n = 0 then Fin 1 else to_ldouble (x ^ n))"
  by (cases n) simp_all

lemma log_ld_2: "log_ld (Fin 2) = Fin (ln 2)"
  by simp

lemma log2_below_overflow:
  assumes "1 \<le> x" "x < LDBL_OVERFLOW"
  shows "0 \<le> log 2 x" "log 2 x < real LDBL_MAX_EXP"
proof -
  show "0 \<le> log 2 x" using assms(1) by simp
  have "x < 2 powr (real LDBL_MAX_EXP)"
    using assms(2) unfolding LDBL_OVERFLOW_def by (simp only: powr_realpow zero_less_numeral)
  then show "log 2 x < real LDBL_MAX_EXP" using assms(1) by (subst log_less_iff) simp_all
qed

lemma max_exp_below_overflow: "real LDBL_MAX_EXP < LDBL_OVERFLOW"
  unfolding LDBL_OVERFLOW_def by (rule of_nat_less_two_power)

lemma trunc_of_int: "trunc_toward_zero (of_int n) = n"
  by (simp add: trunc_toward_zero_def)

lemma bits_of_finite:
  assumes "1 \<le> x" "x < LDBL_OVERFLOW"
  shows "to_int indefinite (floor_ld (div_ld (log_ld (Fin x)) (log_ld (Fin 2)))) = \<lfloor>log 2 x\<rfloor>"
proof -
  have lg: "ln x / ln 2 = log 2 x" by (simp add: log_def)
  have b: "0 \<le> log 2 x" "log 2 x < real LDBL_MAX_EXP" using log2_below_overflow [OF assms] .
  have "log 2 x < LDBL_OVERFLOW" using b(2) max_exp_below_overflow by linarith
  then have "to_ldouble (ln x / ln 2) = Fin (log 2 x)"
    using b(1) by (simp add: lg to_ldouble_Fin)
  then have d: "div_ld (log_ld (Fin x)) (log_ld (Fin 2)) = Fin (log 2 x)"
    using assms(1) by simp
  have "0 \<le> \<lfloor>log 2 x\<rfloor>" "\<lfloor>log 2 x\<rfloor> < 16384"
    using b by (simp_all add: floor_less_iff LDBL_MAX_EXP_def)
  then have "to_int indefinite (floor_ld (Fin (log 2 x))) = \<lfloor>log 2 x\<rfloor>"
    by (simp add: trunc_of_int)
  then show ?thesis unfolding d .
qed

lemma numCombinations_analyze:
  "numCombinations (analyze indefinite pw) =
     pow (Fin (of_int (alphabetSize (scan pw)))) (length pw)"
  by (simp add: analyze_def computeNumBits_def computeNumCombinations_def PasswordAnalyzer_new_def)

lemma numBits_computeNumBits:
  "numBits (computeNumBits indefinite pa) =
     to_int indefinite (floor_ld (div_ld (log_ld (numCombinations pa)) (log_ld (Fin 2))))"
  by (simp add: computeNumBits_def)

lemma numBits_analyze:
  "numBits (analyze indefinite pw) =
     to_int indefinite
       (floor_ld (div_ld (log_ld (numCombinations (analyze indefinite pw))) (log_ld (Fin 2))))"
  by (simp add: analyze_def computeNumBits_def)

lemma password_analyze: "password (analyze indefinite pw) = pw"
  by (simp add: analyze_def computeNumBits_def computeNumCombinations_def)

lemma to_ldouble_0: "to_ldouble 0 = Fin 0"
  using LDBL_OVERFLOW_pos by (simp add: to_ldouble_Fin)

lemma bits_of_one:
  "to_int indefinite (floor_ld (div_ld (log_ld (Fin 1)) (log_ld (Fin 2)))) = 0"
  by (simp add: to_ldouble_0 trunc_toward_zero_def)

lemma analyze_empty:
  "analyze indefinite [] = \<lparr>password = [], numCombinations = Fin 1, numBits = 0\<rparr>"
  unfolding analyze_def computeNumBits_def computeNumCombinations_def PasswordAnalyzer_new_def
  by (simp add: to_ldouble_0 trunc_toward_zero_def)

lemma scan_aA1: "scan ''aA1!'' = [True, True, True, True, False, False, False]"
  by (simp add: scan_def scan_char_def isdigit_def islower_def isupper_def ispunct_def)

lemma alphabet_aA1: "alphabetSize (scan ''aA1!'') = 94"
  by (simp add: scan_aA1 alphabetSize_def NUMBERS_def LOWERCASE_def UPPERCASE_def SYMBOLS_def)

lemma comb_aA1: "numCombinations (analyze indefinite ''aA1!'') = Fin 78074896"
proof -
  have "(78074896::real) < 2 ^ 27" by simp
  then have "(78074896::real) < LDBL_OVERFLOW" by (rule below_LDBL_OVERFLOW) (simp add: LDBL_MAX_EXP_def)
  then have "to_ldouble 78074896 = Fin 78074896" by (intro to_ldouble_Fin) simp_all
  then show ?thesis by (simp add: numCombinations_analyze alphabet_aA1 pow_Fin)
qed

lemma bits_aA1: "numBits (analyze indefinite ''aA1!'') = 26"
proof -
  have "(78074896::real) < 2 ^ 27" by simp
  then have ovf: "(78074896::real) < LDBL_OVERFLOW" by (rule below_LDBL_OVERFLOW) (simp add: LDBL_MAX_EXP_def)
  have "\<lfloor>log 2 (78074896::real)\<rfloor> = 26"
  proof (rule floor_unique)
    have "2 powr (real_of_int 26) \<le> (78074896::real)" by simp
    then show "of_int 26 \<le> log 2 (78074896::real)" by (subst le_log_iff) simp_all
    have "(78074896::real) < 2 powr 27" by simp
    then have "log 2 (78074896::real) < 27" by (subst log_less_iff) simp_all
    then show "log 2 (78074896::real) < of_int 26 + 1" by simp
  qed
  then show ?thesis
    unfolding numBits_analyze comb_aA1 using bits_of_finite [OF _ ovf] by simp
qed







lemma bits_of_PInf:
  "to_int indefinite (floor_ld (div_ld (log_ld PInf) (log_ld (Fin 2)))) = indefinite PInf"
  by simp

lemma bits_of_zero:
  "to_int indefinite (floor_ld (div_ld (log_ld (Fin 0)) (log_ld (Fin 2)))) = indefinite NInf"
  by simp

lemma bits_of_negative:
  "x < 0 \<Longrightarrow>
   to_int indefinite (floor_ld (div_ld (log_ld (Fin x)) (log_ld (Fin 2)))) = indefinite NaN"
  by simp


lemma numCombinations_computeNumCombinations:
  "numCombinations (computeNumCombinations pa) =
     pow (Fin (of_int (alphabetSize (scan (password pa))))) (length (password pa))"
  by (simp add: computeNumCombinations_def Let_def)

lemma pow_alphabet_positive:
  "pow (Fin (of_int (alphabetSize (scan pw)))) (length pw) = PInf \<or>
   (\<exists>x. pow (Fin (of_int (alphabetSize (scan pw)))) (length pw) = Fin x \<and> 1 \<le> x)"
proof (cases "pw = []")
  case True
  then show ?thesis by simp
next
  case False
  let ?n = "real_of_int (alphabetSize (scan pw))"
  have n: "1 \<le> ?n" using alphabetSize_scan_pos [OF False] by simp
  then have p: "1 \<le> ?n ^ length pw" by (rule one_le_power)
  have c: "pow (Fin ?n) (length pw) = to_ldouble (?n ^ length pw)"
    using False by (simp add: pow_Fin)
  show ?thesis
  proof (cases "LDBL_OVERFLOW \<le> ?n ^ length pw")
    case True
    then show ?thesis by (simp add: c to_ldouble_PInf)
  next
    case False
    then have "to_ldouble (?n ^ length pw) = Fin (?n ^ length pw)"
      using p by (intro to_ldouble_Fin) simp_all
    then show ?thesis using p c by simp
  qed
qed

lemma combinations_overflow:
  assumes "LDBL_OVERFLOW \<le> real_of_int (alphabetSize (scan pw)) ^ length pw"
  shows "numCombinations (analyze indefinite pw) = PInf"
    and "numBits (analyze indefinite pw) = indefinite PInf"
proof -
  have "pw \<noteq> []"
  proof
    assume "pw = []"
    then have "LDBL_OVERFLOW \<le> 1" using assms by simp
    moreover have "(1::real) < 2 ^ 1" by simp
    then have "1 < LDBL_OVERFLOW" by (rule below_LDBL_OVERFLOW) (simp add: LDBL_MAX_EXP_def)
    ultimately show False by simp
  qed
  then show c: "numCombinations (analyze indefinite pw) = PInf"
    using assms by (simp add: numCombinations_analyze pow_Fin to_ldouble_PInf)
  show "numBits (analyze indefinite pw) = indefinite PInf"
    unfolding numBits_analyze c by simp
qed

lemma diverse10000:
  "alphabetSize (scan (concat (replicate 2500 ''aA1!''))) = 94"
  "length (concat (replicate 2500 ''aA1!'')) = 10000"
proof -
  have "set (concat (replicate 2500 ''aA1!'')) = set ''aA1!''" by simp
  then have "scan (concat (replicate 2500 ''aA1!'')) = scan ''aA1!''" by (rule scan_cong_set)
  then show "alphabetSize (scan (concat (replicate 2500 ''aA1!''))) = 94"
    by (simp add: alphabet_aA1)
  show "length (concat (replicate 2500 ''aA1!'')) = 10000"
    by (simp add: length_concat sum_list_replicate)
qed

lemma diverse_overflow:
  "LDBL_OVERFLOW \<le>
     real_of_int (alphabetSize (scan (concat (replicate 2500 ''aA1!''))))
       ^ length (concat (replicate 2500 ''aA1!''))"
  unfolding diverse10000
  by (rule above_LDBL_OVERFLOW [where a = 6]) (simp_all add: LDBL_MAX_EXP_def)

section \<open>Lemmas on the terminal and the streams\<close>




lemma set_echo_terminal:
  "terminal w = Some t \<Longrightarrow>
   set_echo tty0 w =
     (w\<lparr>terminal := Some (t\<lparr>c_lflag := c_lflag t OR ECHO\<rparr>)\<rparr>, t\<lparr>c_lflag := c_lflag t OR ECHO\<rparr>)"
  by (simp add: set_echo_def tcgetattr_def tcsetattr_def Let_def)








lemma good_clear: "good (clear is)"
  by (simp add: good_def clear_def)

lemma ignore_clear:
  "ignore (clear is) n delim =
     is\<lparr>pending := fst (discard n delim (pending is)),
        eofbit := snd (discard n delim (pending is)), failbit := False\<rparr>"
  by (simp add: ignore_def good_clear) (simp add: clear_def split: prod.splits)

lemma retry_body_unfold:
  "retry_body (w, pa) =
     (w\<lparr>cin := fst (getline (ignore (clear (cin w)) 80 (CHR 0x0A)) (password pa) (CHR 0x0A)),
        cout := cout w @ [Str errMsg, Str prompt]\<rparr>,
      pa\<lparr>password := snd (getline (ignore (clear (cin w)) 80 (CHR 0x0A)) (password pa) (CHR 0x0A))\<rparr>)"
  by (simp add: retry_body_def Let_def split: prod.splits)


lemma retry_loop_done: "\<not> fail (cin (fst s)) \<Longrightarrow> retry_loop s = Some s"
  by (subst retry_loop.simps) simp

text \<open>At the end of a file the loop never ends.\<close>

lemma discard_Nil: "discard n delim [] = ([], n \<noteq> 0)"
  by (cases n) simp_all

lemma retry_body_at_end:
  assumes "pending (cin (fst s)) = []" "fail (cin (fst s))"
  shows "pending (cin (fst (retry_body s))) = []" "fail (cin (fst (retry_body s)))"
proof -
  obtain w pa where s: "s = (w, pa)" by (cases s)
  have p: "pending (cin w) = []" using assms(1) s by simp
  have i: "ignore (clear (cin w)) 80 (CHR 0x0A) = (cin w)\<lparr>pending := [], eofbit := True, failbit := False\<rparr>"
    by (simp add: ignore_clear p discard_Nil)
  have g: "getline (ignore (clear (cin w)) 80 (CHR 0x0A)) (password pa) (CHR 0x0A) =
      ((cin w)\<lparr>pending := [], eofbit := True, failbit := True\<rparr>, password pa)"
    unfolding i by (simp add: getline_def good_def)
  show "pending (cin (fst (retry_body s))) = []" by (simp add: s retry_body_unfold g)
  show "fail (cin (fst (retry_body s)))" by (simp add: s retry_body_unfold g fail_def)
qed

lemma retry_loop_end_of_file:
  assumes "pending (cin (fst s)) = []" "fail (cin (fst s))"
  shows "retry_loop s = None"
proof (rule ccontr)
  assume "retry_loop s \<noteq> None"
  then obtain s' where s': "retry_loop s = Some s'" by auto
  have "\<not> (pending (cin (fst s)) = [] \<and> fail (cin (fst s)))"
  proof (rule retry_loop.raw_induct
      [where P = "\<lambda>s s'. \<not> (pending (cin (fst s)) = [] \<and> fail (cin (fst s)))", OF _ s'])
    fix f s sa
    assume IH: "\<And>x y. f x = Some y \<Longrightarrow> \<not> (pending (cin (fst x)) = [] \<and> fail (cin (fst x)))"
      and eq: "(if fail (cin (fst s)) then f (retry_body s) else Some s) = Some sa"
    show "\<not> (pending (cin (fst s)) = [] \<and> fail (cin (fst s)))"
    proof
      assume a: "pending (cin (fst s)) = [] \<and> fail (cin (fst s))"
      with eq have "f (retry_body s) = Some sa" by simp
      from IH [OF this] show False using retry_body_at_end a by blast
    qed
  qed
  with assms show False by simp
qed


lemma set_echo_no_terminal:
  "terminal w = None \<Longrightarrow> set_echo tty0 w = (w, tty0\<lparr>c_lflag := c_lflag tty0 OR ECHO\<rparr>)"
  by (simp add: set_echo_def tcgetattr_def tcsetattr_def Let_def)

lemma reset_echo_no_terminal: "terminal w = None \<Longrightarrow> reset_echo tty w = w"
  by (simp add: reset_echo_def tcsetattr_def)

lemma first_read_unfold:
  "first_read (w, pa) =
     (w\<lparr>cin := fst (getline (cin w) (password pa) (CHR 0x0A)),
        cout := cout w @ [Str prompt]\<rparr>,
      pa\<lparr>password := snd (getline (cin w) (password pa) (CHR 0x0A))\<rparr>)"
  by (simp add: first_read_def Let_def split: prod.splits)

lemma extract_line_replicate:
  "c \<noteq> delim \<Longrightarrow>
   extract_line delim (replicate n (Ch c) @ Ch delim # rest) = (replicate n c, rest, False)"
  by (induction n) simp_all


section \<open>The overflow threshold\<close>




lemma log2_aA1_bounds: "131 / 5 \<le> log 2 (78074896::real)" "log 2 (78074896::real) \<le> 105 / 4"
proof -
  have "(2::real) powr 131 \<le> 78074896 ^ 5" by simp
  then have "131 \<le> log 2 ((78074896::real) ^ 5)" by (subst le_log_iff) simp_all
  also have "\<dots> = real 5 * log 2 (78074896::real)" by (rule log_nat_power) simp
  finally show "131 / 5 \<le> log 2 (78074896::real)" by simp
  have "(78074896::real) ^ 4 \<le> 2 powr 105" by simp
  then have "log 2 ((78074896::real) ^ 4) \<le> 105" by (subst log_le_iff) simp_all
  also have "log 2 ((78074896::real) ^ 4) = real 4 * log 2 (78074896::real)"
    by (rule log_nat_power) simp
  finally show "log 2 (78074896::real) \<le> 105 / 4" by simp
qed


lemma scan_single: "k < 7 \<Longrightarrow> scan [c] ! k \<longleftrightarrow> category c = k"
  by (simp add: scan_nth)

section \<open>Lemmas on promptPassword and run\<close>

lemma extract_line_line:
  "delim \<notin> set line \<Longrightarrow>
   extract_line delim (map Ch line @ Ch delim # rest) = (line, rest, False)"
  by (induction line) auto

lemma promptPassword_unfold:
  "promptPassword tty0 (w, pa) =
     (case retry_loop (first_read (fst (set_echo tty0 w), pa)) of
        None \<Rightarrow> None
      | Some (w', pa') \<Rightarrow> Some (reset_echo (snd (set_echo tty0 w)) w', pa'))"
  by (simp add: promptPassword_def split_beta split: option.splits)

lemma getline_line:
  assumes "good is" "delim \<notin> set line" "pending is = map Ch line @ Ch delim # rest"
  shows "getline is str delim = (is\<lparr>pending := rest\<rparr>, line)"
proof -
  have "eofbit is = False" "failbit is = False" using assms(1) by (simp_all add: good_def)
  then have "is\<lparr>pending := rest, eofbit := False, failbit := False\<rparr> = is\<lparr>pending := rest\<rparr>"
    by simp
  then show ?thesis
    using assms(1) by (simp add: getline_def assms(3) extract_line_line [OF assms(2)])
qed

lemma set_echo_world:
  "fst (set_echo tty0 w) =
     w\<lparr>terminal := map_option (\<lambda>t. t\<lparr>c_lflag := c_lflag t OR ECHO\<rparr>) (terminal w)\<rparr>"
  by (cases "terminal w") (simp_all add: set_echo_terminal set_echo_no_terminal)

lemma reset_echo_set_echo:
  "terminal w' = terminal (fst (set_echo tty0 w)) \<Longrightarrow>
   reset_echo (snd (set_echo tty0 w)) w' = w'"
proof (cases "terminal w")
  case None
  assume "terminal w' = terminal (fst (set_echo tty0 w))"
  with None show ?thesis by (simp add: set_echo_no_terminal reset_echo_no_terminal)
next
  case (Some t)
  assume "terminal w' = terminal (fst (set_echo tty0 w))"
  with Some show ?thesis
    by (simp add: set_echo_terminal reset_echo_def tcsetattr_def)
qed

text \<open>A line that is there is read at the first attempt, and \<open>promptPassword\<close> returns.\<close>

lemma promptPassword_line:
  assumes "good (cin w)" "CHR 0x0A \<notin> set line"
    and "pending (cin w) = map Ch line @ Ch (CHR 0x0A) # rest"
  shows "promptPassword tty0 (w, pa) =
     Some (w\<lparr>cin := (cin w)\<lparr>pending := rest\<rparr>, cout := cout w @ [Str prompt],
             terminal := map_option (\<lambda>t. t\<lparr>c_lflag := c_lflag t OR ECHO\<rparr>) (terminal w)\<rparr>,
           pa\<lparr>password := line\<rparr>)"
proof -
  let ?w1 = "fst (set_echo tty0 w)"
  let ?s = "(?w1\<lparr>cin := (cin w)\<lparr>pending := rest\<rparr>, cout := cout w @ [Str prompt]\<rparr>,
             pa\<lparr>password := line\<rparr>)"
  have c: "cin ?w1 = cin w" "cout ?w1 = cout w" by (simp_all add: set_echo_world)
  have g: "getline (cin w) (password pa) (CHR 0x0A) = ((cin w)\<lparr>pending := rest\<rparr>, line)"
    using assms by (rule getline_line)
  have f: "first_read (?w1, pa) = ?s" by (simp add: first_read_unfold c g)
  have "\<not> fail (cin (fst ?s))" using assms(1) by (simp add: fail_def good_def)
  then have l: "retry_loop ?s = Some ?s" by (rule retry_loop_done)
  have r: "reset_echo (snd (set_echo tty0 w)) (fst ?s) = fst ?s"
    by (rule reset_echo_set_echo) simp
  have "promptPassword tty0 (w, pa) = Some (reset_echo (snd (set_echo tty0 w)) (fst ?s), snd ?s)"
    unfolding promptPassword_unfold f l by simp
  then show ?thesis unfolding r by (simp add: set_echo_world)
qed

lemma retry_body_fields:
  "numCombinations (snd (retry_body s)) = numCombinations (snd s) \<and>
   numBits (snd (retry_body s)) = numBits (snd s)"
  by (cases s) (simp add: retry_body_unfold)

lemma retry_loop_fields:
  assumes "retry_loop s = Some s'"
  shows "numCombinations (snd s') = numCombinations (snd s) \<and> numBits (snd s') = numBits (snd s)"
proof (rule retry_loop.raw_induct
    [where P = "\<lambda>s s'. numCombinations (snd s') = numCombinations (snd s) \<and>
                        numBits (snd s') = numBits (snd s)", OF _ assms])
  fix f s sa
  assume IH: "\<And>x y. f x = Some y \<Longrightarrow>
      numCombinations (snd y) = numCombinations (snd x) \<and> numBits (snd y) = numBits (snd x)"
    and eq: "(if fail (cin (fst s)) then f (retry_body s) else Some s) = Some sa"
  show "numCombinations (snd sa) = numCombinations (snd s) \<and> numBits (snd sa) = numBits (snd s)"
  proof (cases "fail (cin (fst s))")
    case True
    with eq have "f (retry_body s) = Some sa" by simp
    from IH [OF this] show ?thesis by (simp add: retry_body_fields)
  next
    case False
    with eq show ?thesis by simp
  qed
qed

text \<open>
  \<open>run\<close> on a new object: what is printed after the prompts is the result of
  \<open>analyze\<close> on the password read.
\<close>

lemma run_analyze:
  assumes "promptPassword tty0 (w, PasswordAnalyzer_new) = Some (w', pa)"
  shows "run tty0 indefinite (w, PasswordAnalyzer_new) =
     Some (w'\<lparr>cout := cout w' @ insertion (analyze indefinite (password pa))\<rparr>,
           analyze indefinite (password pa))"
proof -
  from assms obtain w1 where
    l: "retry_loop (first_read (fst (set_echo tty0 w), PasswordAnalyzer_new)) = Some (w1, pa)"
    by (auto simp: promptPassword_unfold split: option.splits)
  have "numCombinations pa = Fin 0 \<and> numBits pa = 0"
    using retry_loop_fields [OF l]
    by (simp add: first_read_unfold PasswordAnalyzer_new_def)
  then have "pa = PasswordAnalyzer_new\<lparr>password := password pa\<rparr>"
    by (simp add: PasswordAnalyzer_new_def)
  then have "computeNumBits indefinite (computeNumCombinations pa) =
      analyze indefinite (password pa)"
    unfolding analyze_def by simp
  then show ?thesis by (simp add: run_def assms Let_def)
qed




section \<open>The properties\<close>

text \<open>
  C1. For every password whose characters have codes 0 to 127: the loop body sets, for
  each character, exactly the flag of its category, the category being the index of the
  first test the character passes in the order digit, lowercase letter, uppercase
  letter, punctuation, space, tab, anything else; and after the scan the flag of a
  category is set if and only if some character of the password has that category.
\<close>

theorem classification_first_match_flags:
  assumes "\<forall>c\<in>set pw. (of_char c :: nat) < 128"
  shows "(\<forall>c\<in>set pw. \<forall>ct. scan_char ct c = ct[category c := True]) \<and>
         (\<forall>c\<in>set pw. \<forall>k. category c = k \<longleftrightarrow>
             k < 7 \<and> (category_tests ! k) c \<and> (\<forall>j<k. \<not> (category_tests ! j) c)) \<and>
         length (scan pw) = 7 \<and>
         (\<forall>k<7. scan pw ! k \<longleftrightarrow> (\<exists>c\<in>set pw. category c = k))"
  by (simp add: scan_char_category category_first_match length_scan scan_nth)

theorem classification_first_match_flags_witness:
  "scan ''a1 b'' ! 0 \<and> scan ''a1 b'' ! 1 \<and> \<not> scan ''a1 b'' ! 2 \<and> \<not> scan ''a1 b'' ! 3 \<and>
   scan ''a1 b'' ! 4 \<and> \<not> scan ''a1 b'' ! 5 \<and> \<not> scan ''a1 b'' ! 6"
proof -
  have h: "\<forall>c\<in>set ''a1 b''. (of_char c :: nat) < 128" by simp
  have c: "category (CHR ''a'') = 1" "category (CHR ''1'') = 0" "category (CHR '' '') = 4"
    "category (CHR ''b'') = 1"
    by (simp_all add: category_def category_tests_def isdigit_def islower_def isupper_def
        ispunct_def)
  from classification_first_match_flags [OF h]
  have "\<forall>k<7. scan ''a1 b'' ! k \<longleftrightarrow> (\<exists>c\<in>set ''a1 b''. category c = k)" by blast
  then show ?thesis by (simp add: c)
qed

text \<open>
  C2. The alphabet size is the sum, over the seven flags, of the weight of the flag when
  it is set and 0 when it is not, with the weights 10, 26, 26, 32, 1, 1, 1; it is what
  \<open>computeNumCombinations\<close> raises to the length. Every scanned character sets a flag
  of weight at least 1, so the alphabet size is never negative and is 0 only for the
  empty password.
\<close>

theorem alphabet_size_weighted_sum:
  "[NUMBERS, LOWERCASE, UPPERCASE, SYMBOLS, SPACE, TAB, OTHER] = [10, 26, 26, 32, 1, 1, 1] \<and>
   alphabetSize (scan pw) =
     sum_list (map2 (\<lambda>flag weight. if flag then weight else 0) (scan pw)
       [NUMBERS, LOWERCASE, UPPERCASE, SYMBOLS, SPACE, TAB, OTHER]) \<and>
   numCombinations (computeNumCombinations pa) =
     pow (Fin (of_int (alphabetSize (scan (password pa))))) (length (password pa)) \<and>
   (\<forall>c\<in>set pw. scan pw ! category c \<and>
      1 \<le> [NUMBERS, LOWERCASE, UPPERCASE, SYMBOLS, SPACE, TAB, OTHER] ! category c) \<and>
   0 \<le> alphabetSize (scan pw) \<and>
   (alphabetSize (scan pw) = 0 \<longrightarrow> length pw = 0)"
proof -
  have w: "[NUMBERS, LOWERCASE, UPPERCASE, SYMBOLS, SPACE, TAB, OTHER] = [10, 26, 26, 32, 1, 1, 1]"
    by (simp add: NUMBERS_def LOWERCASE_def UPPERCASE_def SYMBOLS_def SPACE_def TAB_def OTHER_def)
  have s: "alphabetSize (scan pw) =
     sum_list (map2 (\<lambda>flag weight. if flag then weight else 0) (scan pw)
       [NUMBERS, LOWERCASE, UPPERCASE, SYMBOLS, SPACE, TAB, OTHER])"
    unfolding w by (rule alphabetSize_sum)
  have f: "\<forall>c\<in>set pw. scan pw ! category c"
    using scan_nth category_less by blast
  have "\<forall>k<7. (1::int) \<le> [10, 26, 26, 32, 1, 1, 1] ! k"
    by (simp add: less_Suc_eq eval_nat_numeral all_conj_distrib)
  then have g: "\<forall>c. 1 \<le> [NUMBERS, LOWERCASE, UPPERCASE, SYMBOLS, SPACE, TAB, OTHER] ! category c"
    unfolding w using category_less by blast
  have z: "alphabetSize (scan pw) = 0 \<longrightarrow> length pw = 0"
  proof (cases "pw = []")
    case True
    then show ?thesis by simp
  next
    case False
    then show ?thesis using alphabetSize_scan_pos [of pw] by simp
  qed
  show ?thesis
    using w s f g z alphabetSize_nonneg numCombinations_computeNumCombinations by blast
qed

theorem alphabet_size_weighted_sum_witness:
  "alphabetSize (scan ''a b'') = 27 \<and> alphabetSize (scan []) = 0"
proof -
  have "scan ''a b'' = [False, True, False, False, True, False, False]"
    by (simp add: scan_def scan_char_def isdigit_def islower_def isupper_def ispunct_def)
  then show ?thesis
    using alphabet_size_weighted_sum [of "''a b''" PasswordAnalyzer_new]
    by (simp add: alphabetSize_scan_Nil)
qed

text \<open>
  C3. For the empty password the alphabet size is 0, \<open>pow\<close> with exponent 0 is 1
  whatever the base, the combination count is 1 and the bit strength is 0.
\<close>

theorem empty_input_strength:
  "alphabetSize (scan []) = 0 \<and> pow x 0 = Fin 1 \<and>
   numCombinations (analyze indefinite []) = Fin 1 \<and> numBits (analyze indefinite []) = 0"
  by (simp add: alphabetSize_scan_Nil analyze_empty)

theorem empty_input_strength_witness:
  "pow (Fin 0) 0 = Fin 1 \<and> analyze x86_indefinite [] =
     \<lparr>password = [], numCombinations = Fin 1, numBits = 0\<rparr>"
  using empty_input_strength [of "Fin 0" x86_indefinite] by (simp add: analyze_empty)

text \<open>
  C4, as the code has it. When the alphabet size raised to the length reaches the
  overflow bound, the combination count is plus infinity; \<open>computeNumBits\<close> makes no
  test: the logarithm of plus infinity is plus infinity, and the bit strength is whatever
  the unchecked conversion of plus infinity to \<open>int\<close> yields. The output is the
  infinite count and that integer, in the two sentences of every other run.
\<close>

theorem overflow_saturates_unchecked:
  assumes "LDBL_OVERFLOW \<le> real_of_int (alphabetSize (scan pw)) ^ length pw"
  shows "numCombinations (analyze indefinite pw) = PInf \<and>
         log_ld PInf = PInf \<and>
         numBits (analyze indefinite pw) = indefinite PInf \<and>
         insertion (analyze indefinite pw) =
           [Str ''There are '', LongDouble PInf, Str '' combinations'', Endl,
            Str ''That is equivalent to a key of '', Integer (indefinite PInf),
            Str '' bits'', Endl]"
  using combinations_overflow [OF assms, of indefinite] by (simp add: insertion_def)

theorem overflow_saturates_unchecked_witness:
  "numCombinations (analyze saturating (concat (replicate 2500 ''aA1!''))) = PInf \<and>
   numBits (analyze saturating (concat (replicate 2500 ''aA1!''))) = 2147483647"
proof -
  have "saturating PInf = 2147483647" by simp
  then show ?thesis
    using overflow_saturates_unchecked [OF diverse_overflow, of saturating] by (simp only:)
qed

text \<open>
  C4 as written, with the overflow detected and reported as a result of its own, fails
  at the password made of 2500 copies of \<open>aA1!\<close>: on x86 the program prints the
  infinite count and a key of -2147483648 bits.
\<close>

theorem overflow_not_detected_counterexample:
  "numCombinations (analyze x86_indefinite (concat (replicate 2500 ''aA1!''))) = PInf \<and>
   insertion (analyze x86_indefinite (concat (replicate 2500 ''aA1!''))) =
     [Str ''There are '', LongDouble PInf, Str '' combinations'', Endl,
      Str ''That is equivalent to a key of '', Integer (- 2147483648), Str '' bits'', Endl]"
proof -
  have "numCombinations (analyze x86_indefinite (concat (replicate 2500 ''aA1!''))) = PInf"
    "numBits (analyze x86_indefinite (concat (replicate 2500 ''aA1!''))) = x86_indefinite PInf"
    by (rule combinations_overflow [OF diverse_overflow])+
  then show ?thesis by (simp add: insertion_def x86_indefinite_def)
qed

text \<open>
  C5, as the code has it. \<open>computeNumBits\<close> has no guard: on a combination count of
  0 it takes the logarithm (minus infinity), on a negative one the logarithm is a NaN,
  and the bit strength is the unchecked conversion of that. No password leads there:
  after \<open>computeNumCombinations\<close> the combination count is plus infinity or a finite
  value of at least 1.
\<close>

theorem bit_step_unguarded_unreachable:
  "(numCombinations pa = Fin x \<and> x \<le> 0 \<longrightarrow>
      numBits (computeNumBits indefinite pa) = indefinite (if x = 0 then NInf else NaN)) \<and>
   (numCombinations (computeNumCombinations pa) = PInf \<or>
    (\<exists>y. numCombinations (computeNumCombinations pa) = Fin y \<and> 1 \<le> y))"
proof (intro conjI impI)
  assume "numCombinations pa = Fin x \<and> x \<le> 0"
  then show "numBits (computeNumBits indefinite pa) = indefinite (if x = 0 then NInf else NaN)"
    by (simp add: numBits_computeNumBits)
next
  show "numCombinations (computeNumCombinations pa) = PInf \<or>
    (\<exists>y. numCombinations (computeNumCombinations pa) = Fin y \<and> 1 \<le> y)"
    unfolding numCombinations_computeNumCombinations by (rule pow_alphabet_positive)
qed

theorem bit_step_unguarded_unreachable_witness:
  "numBits (computeNumBits saturating (PasswordAnalyzer_new\<lparr>numCombinations := Fin (- 1)\<rparr>)) = 0 \<and>
   numCombinations (computeNumCombinations (PasswordAnalyzer_new\<lparr>password := ''1''\<rparr>)) = Fin 10"
proof -
  have "scan ''1'' = [True, False, False, False, False, False, False]"
    by (simp add: scan_def scan_char_def isdigit_def)
  then have "alphabetSize (scan ''1'') = 10" by (simp add: alphabetSize_def NUMBERS_def)
  moreover have "(10::real) < 2 ^ 4" by simp
  then have "(10::real) < LDBL_OVERFLOW"
    by (rule below_LDBL_OVERFLOW) (simp add: LDBL_MAX_EXP_def)
  then have "to_ldouble 10 = Fin 10" by (intro to_ldouble_Fin) simp_all
  ultimately have "numCombinations (computeNumCombinations (PasswordAnalyzer_new\<lparr>password := ''1''\<rparr>)) = Fin 10"
    by (simp add: numCombinations_computeNumCombinations pow_Fin)
  then show ?thesis
    using bit_step_unguarded_unreachable
      [of "PasswordAnalyzer_new\<lparr>numCombinations := Fin (- 1)\<rparr>" "- 1" saturating]
    by simp
qed

text \<open>
  C5 as written, with a report instead of the logarithm, fails on the object the
  constructor makes, whose combination count is 0: \<open>computeNumBits\<close> returns it with
  the bit strength -2147483648 (on x86), the conversion of the logarithm of 0.
\<close>

theorem nonpositive_count_unguarded_counterexample:
  "numCombinations PasswordAnalyzer_new = Fin 0 \<and>
   log_ld (numCombinations PasswordAnalyzer_new) = NInf \<and>
   computeNumBits x86_indefinite PasswordAnalyzer_new =
     \<lparr>password = [], numCombinations = Fin 0, numBits = - 2147483648\<rparr>"
  by (simp add: PasswordAnalyzer_new_def computeNumBits_def x86_indefinite_def)

text \<open>
  C6. For the password \<open>aA1!\<close> exactly the digit, lowercase, uppercase and symbol
  flags are set, the alphabet size is 94, the combination count is 94^4 = 78074896 and
  the bit strength is 26, the floor of the binary logarithm of 78074896. That logarithm
  lies between 26.2 and 26.25, far from an integer.
\<close>

theorem scenario_aA1:
  "scan ''aA1!'' = [True, True, True, True, False, False, False] \<and>
   alphabetSize (scan ''aA1!'') = 94 \<and>
   numCombinations (analyze indefinite ''aA1!'') = Fin 78074896 \<and>
   (94::real) ^ 4 = 78074896 \<and>
   numBits (analyze indefinite ''aA1!'') = 26 \<and>
   \<lfloor>log 2 (78074896::real)\<rfloor> = 26 \<and>
   131 / 5 \<le> log 2 (78074896::real) \<and> log 2 (78074896::real) \<le> 105 / 4"
proof -
  have "\<lfloor>log 2 (78074896::real)\<rfloor> = 26"
    using log2_aA1_bounds by (intro floor_unique) simp_all
  moreover have "(94::real) ^ 4 = 78074896" by simp
  ultimately show ?thesis
    using log2_aA1_bounds scan_aA1 alphabet_aA1 comb_aA1 [of indefinite] bits_aA1 [of indefinite]
    by (intro conjI)
qed

theorem scenario_aA1_witness:
  "run \<lparr>c_lflag = 0\<rparr> x86_indefinite (typed_aA1, PasswordAnalyzer_new) =
     Some (\<lparr>cin = \<lparr>pending = [], eofbit = False, failbit = False\<rparr>,
            cout = [Str prompt,
              Str ''There are '', LongDouble (Fin 78074896), Str '' combinations'', Endl,
              Str ''That is equivalent to a key of '', Integer 26, Str '' bits'', Endl],
            terminal = None\<rparr>,
           \<lparr>password = ''aA1!'', numCombinations = Fin 78074896, numBits = 26\<rparr>)"
proof -
  have p: "promptPassword \<lparr>c_lflag = 0\<rparr> (typed_aA1, PasswordAnalyzer_new) =
     Some (\<lparr>cin = \<lparr>pending = [], eofbit = False, failbit = False\<rparr>,
            cout = [Str prompt], terminal = None\<rparr>, PasswordAnalyzer_new\<lparr>password := ''aA1!''\<rparr>)"
    by (subst promptPassword_line [where line = "''aA1!''" and rest = "[]"])
      (simp_all add: typed_aA1_def good_def)
  have a: "analyze x86_indefinite ''aA1!'' =
      \<lparr>password = ''aA1!'', numCombinations = Fin 78074896, numBits = 26\<rparr>"
    using scenario_aA1 [of x86_indefinite] password_analyze [of x86_indefinite "''aA1!''"]
    by (cases "analyze x86_indefinite ''aA1!''") simp
  show ?thesis
    unfolding run_analyze [OF p] by (simp add: a insertion_def)
qed




text \<open>
  C8. Scanning a single character with a code of 0 to 127 sets exactly one of the seven
  flags; and two passwords that are permutations of each other have the same flags, the
  same combination count and the same bit strength.
\<close>

theorem classification_exhaustive_order_independent:
  "((of_char c :: nat) < 128 \<longrightarrow> (\<exists>!k. k < 7 \<and> scan [c] ! k)) \<and>
   (mset pw = mset pw' \<longrightarrow>
      scan pw = scan pw' \<and>
      numCombinations (analyze indefinite pw) = numCombinations (analyze indefinite pw') \<and>
      numBits (analyze indefinite pw) = numBits (analyze indefinite pw'))"
proof (intro conjI impI)
  show "\<exists>!k. k < 7 \<and> scan [c] ! k"
  proof (rule ex1I [of _ "category c"])
    show "category c < 7 \<and> scan [c] ! category c"
      using category_less by (simp add: scan_single)
  next
    fix k assume "k < 7 \<and> scan [c] ! k"
    then show "k = category c" by (auto simp: scan_single)
  qed
next
  assume m: "mset pw = mset pw'"
  then have "set pw = set pw'" by (rule mset_eq_setD)
  then show s: "scan pw = scan pw'" by (rule scan_cong_set)
  have l: "length pw = length pw'" using m by (rule mset_eq_length)
  show c: "numCombinations (analyze indefinite pw) = numCombinations (analyze indefinite pw')"
    unfolding numCombinations_analyze s l ..
  show "numBits (analyze indefinite pw) = numBits (analyze indefinite pw')"
    unfolding numBits_analyze c ..
qed

theorem classification_exhaustive_order_independent_witness:
  "scan [CHR ''~''] = [False, False, False, True, False, False, False] \<and>
   scan ''a1 b'' = scan ''b 1a'' \<and>
   numBits (analyze x86_indefinite ''a1 b'') = numBits (analyze x86_indefinite ''b 1a'')"
proof -
  have "mset ''a1 b'' = mset ''b 1a''" by simp
  moreover have "scan [CHR ''~''] = [False, False, False, True, False, False, False]"
    by (simp add: scan_def scan_char_def isdigit_def islower_def isupper_def ispunct_def)
  ultimately show ?thesis
    using classification_exhaustive_order_independent
      [of "CHR ''~''" "''a1 b''" "''b 1a''" x86_indefinite]
    by simp
qed






end
